theory Spec2Isabelle
  imports Complex_Main "HOL-Library.Word"
begin

section \<open>The raster surface\<close>

text \<open>
  The fill algorithms of \<^verbatim>\<open>PrimitiveRenderer\<close> work on an \<^verbatim>\<open>sf::Image\<close>. Of that class
  the code uses \<^verbatim>\<open>getSize\<close>, \<^verbatim>\<open>getPixel\<close> and \<^verbatim>\<open>setPixel\<close> only. An image is a
  width and a height (\<^verbatim>\<open>sf::Vector2u\<close>) and one colour for each pixel. A colour is
  four bytes (red, green, blue, alpha), compared component by component.

  \<^verbatim>\<open>getPixel\<close> and \<^verbatim>\<open>setPixel\<close> do not check their coordinates: outside of the image their
  behaviour is undefined. The model returns \<open>None\<close> there, so that a function built
  on them returns \<open>Some\<close> only if every pixel access it made was inside the image.

  Coordinates of type \<^verbatim>\<open>int\<close> are modelled by \<open>int\<close> and those of type \<^verbatim>\<open>unsigned\<close> by
  \<open>nat\<close>. The code adds one to a coordinate only after it found that coordinate inside
  the image, so no addition leaves the range of \<^verbatim>\<open>int\<close> on an image narrower and lower
  than \<open>2^31 - 1\<close> pixels.
\<close>

datatype Color = Color "8 word" "8 word" "8 word" "8 word"

type_synonym Vector2i = "int \<times> int"
type_synonym Vector2u = "nat \<times> nat"

record Image =
  m_size :: Vector2u
  m_pixels :: "nat \<times> nat \<Rightarrow> Color"

definition getSize :: "Image \<Rightarrow> Vector2u" where
  "getSize img = m_size img"

definition getPixel :: "Image \<Rightarrow> nat \<Rightarrow> nat \<Rightarrow> Color option" where
  "getPixel img x y =
     (if x < fst (m_size img) \<and> y < snd (m_size img) then Some (m_pixels img (x, y)) else None)"

definition setPixel :: "Image \<Rightarrow> nat \<Rightarrow> nat \<Rightarrow> Color \<Rightarrow> Image option" where
  "setPixel img x y c =
     (if x < fst (m_size img) \<and> y < snd (m_size img)
      then Some (img\<lparr>m_pixels := (m_pixels img)((x, y) := c)\<rparr>) else None)"

section \<open>Boundary fill and flood fill\<close>

text \<open>
  Both fills run a \<^verbatim>\<open>while (!q.empty())\<close> loop over a queue of coordinates. The loop is
  defined as a partial function: the value \<open>None\<close> stands for a run that does not
  return, so that the loop's termination is a theorem below and not a part of its
  definition. The size \<open>sz\<close> is the one read by \<^verbatim>\<open>img.getSize()\<close> before the loop.
\<close>

partial_function (option) boundaryFill_loop ::
  "Color \<Rightarrow> Color \<Rightarrow> Vector2u \<Rightarrow> Image \<Rightarrow> Vector2i list \<Rightarrow> Image option" where
  "boundaryFill_loop fillColor boundaryColor sz img q =
     (case q of
        [] \<Rightarrow> Some img
      | p # q' \<Rightarrow>
          if fst p < 0 \<or> snd p < 0 \<or> nat (fst p) \<ge> fst sz \<or> nat (snd p) \<ge> snd sz
          then boundaryFill_loop fillColor boundaryColor sz img q'
          else (case getPixel img (nat (fst p)) (nat (snd p)) of
                  None \<Rightarrow> None
                | Some c \<Rightarrow>
                    if c = boundaryColor \<or> c = fillColor
                    then boundaryFill_loop fillColor boundaryColor sz img q'
                    else (case setPixel img (nat (fst p)) (nat (snd p)) fillColor of
                            None \<Rightarrow> None
                          | Some img' \<Rightarrow>
                              boundaryFill_loop fillColor boundaryColor sz img'
                                (q' @ [(fst p + 1, snd p), (fst p - 1, snd p),
                                       (fst p, snd p + 1), (fst p, snd p - 1)]))))"

declare boundaryFill_loop.simps [code]

definition boundaryFill :: "Image \<Rightarrow> int \<Rightarrow> int \<Rightarrow> Color \<Rightarrow> Color \<Rightarrow> Image option" where
  "boundaryFill img x y fillColor boundaryColor =
     (let sz = getSize img in
      if x < 0 \<or> y < 0 \<or> nat x \<ge> fst sz \<or> nat y \<ge> snd sz then Some img
      else (case getPixel img (nat x) (nat y) of
              None \<Rightarrow> None
            | Some start \<Rightarrow>
                if start = boundaryColor \<or> start = fillColor then Some img
                else boundaryFill_loop fillColor boundaryColor sz img [(x, y)]))"

partial_function (option) floodFill_loop ::
  "Color \<Rightarrow> Color \<Rightarrow> Vector2u \<Rightarrow> Image \<Rightarrow> Vector2i list \<Rightarrow> Image option" where
  "floodFill_loop fillColor backgroundColor sz img q =
     (case q of
        [] \<Rightarrow> Some img
      | p # q' \<Rightarrow>
          if fst p < 0 \<or> snd p < 0 \<or> nat (fst p) \<ge> fst sz \<or> nat (snd p) \<ge> snd sz
          then floodFill_loop fillColor backgroundColor sz img q'
          else (case getPixel img (nat (fst p)) (nat (snd p)) of
                  None \<Rightarrow> None
                | Some c \<Rightarrow>
                    if c \<noteq> backgroundColor \<or> c = fillColor
                    then floodFill_loop fillColor backgroundColor sz img q'
                    else (case setPixel img (nat (fst p)) (nat (snd p)) fillColor of
                            None \<Rightarrow> None
                          | Some img' \<Rightarrow>
                              floodFill_loop fillColor backgroundColor sz img'
                                (q' @ [(fst p + 1, snd p), (fst p - 1, snd p),
                                       (fst p, snd p + 1), (fst p, snd p - 1)]))))"

declare floodFill_loop.simps [code]

definition floodFill :: "Image \<Rightarrow> int \<Rightarrow> int \<Rightarrow> Color \<Rightarrow> Image option" where
  "floodFill img x y fillColor =
     (let sz = getSize img in
      if x < 0 \<or> y < 0 \<or> nat x \<ge> fst sz \<or> nat y \<ge> snd sz then Some img
      else (case getPixel img (nat x) (nat y) of
              None \<Rightarrow> None
            | Some backgroundColor \<Rightarrow>
                if backgroundColor = fillColor then Some img
                else floodFill_loop fillColor backgroundColor sz img [(x, y)]))"

subsection \<open>Vocabulary for the statements\<close>

text \<open>
  \<open>in_bounds\<close> is the negation of the bounds test that both fills make; \<open>neighbours\<close>
  are the four coordinates a fill pushes, in the order of the pushes; \<open>colorAt\<close>
  reads the colour at a signed coordinate. \<open>region E Q\<close> is the set of the
  coordinates that a 4-connected path of coordinates satisfying \<open>E\<close> links to a member
  of \<open>Q\<close>, and \<open>recolor img S c\<close> is \<open>img\<close> with the pixels of \<open>S\<close> set to \<open>c\<close>.
\<close>

definition in_bounds :: "Vector2u \<Rightarrow> Vector2i \<Rightarrow> bool" where
  "in_bounds sz p \<longleftrightarrow>
     \<not> (fst p < 0 \<or> snd p < 0 \<or> nat (fst p) \<ge> fst sz \<or> nat (snd p) \<ge> snd sz)"

definition neighbours :: "Vector2i \<Rightarrow> Vector2i list" where
  "neighbours p =
     [(fst p + 1, snd p), (fst p - 1, snd p), (fst p, snd p + 1), (fst p, snd p - 1)]"

definition colorAt :: "Image \<Rightarrow> Vector2i \<Rightarrow> Color" where
  "colorAt img p = m_pixels img (nat (fst p), nat (snd p))"

definition eligible :: "(Color \<Rightarrow> bool) \<Rightarrow> Image \<Rightarrow> Vector2i \<Rightarrow> bool" where
  "eligible skip img p \<longleftrightarrow> in_bounds (m_size img) p \<and> \<not> skip (colorAt img p)"

inductive_set region :: "(Vector2i \<Rightarrow> bool) \<Rightarrow> Vector2i set \<Rightarrow> Vector2i set"
  for E :: "Vector2i \<Rightarrow> bool" and Q :: "Vector2i set" where
  start: "s \<in> Q \<Longrightarrow> E s \<Longrightarrow> s \<in> region E Q"
| step: "p \<in> region E Q \<Longrightarrow> n \<in> set (neighbours p) \<Longrightarrow> E n \<Longrightarrow> n \<in> region E Q"

definition recolor :: "Image \<Rightarrow> Vector2i set \<Rightarrow> Color \<Rightarrow> Image" where
  "recolor img S c =
     img\<lparr>m_pixels := (\<lambda>(x, y). if (int x, int y) \<in> S then c else m_pixels img (x, y))\<rparr>"

text \<open>The number of pixels of the image that a fill with skip test \<open>skip\<close> can still recolour.\<close>

definition todo :: "(Color \<Rightarrow> bool) \<Rightarrow> Image \<Rightarrow> nat" where
  "todo skip img =
     card {p. fst p < fst (m_size img) \<and> snd p < snd (m_size img) \<and> \<not> skip (m_pixels img p)}"

text \<open>
  A rectangle frame is given by its corners \<open>(x1, y1)\<close> and \<open>(x2, y2)\<close>: a coordinate is
  strictly inside when it lies between them on both axes, and on the frame when it lies
  on one of the four sides.
\<close>

type_synonym Rect = "int \<times> int \<times> int \<times> int"

fun strictly_inside :: "Rect \<Rightarrow> Vector2i \<Rightarrow> bool" where
  "strictly_inside (x1, y1, x2, y2) (x, y) \<longleftrightarrow> x1 < x \<and> x < x2 \<and> y1 < y \<and> y < y2"

fun on_frame :: "Rect \<Rightarrow> Vector2i \<Rightarrow> bool" where
  "on_frame (x1, y1, x2, y2) (x, y) \<longleftrightarrow>
     x1 \<le> x \<and> x \<le> x2 \<and> y1 \<le> y \<and> y \<le> y2 \<and> (x = x1 \<or> x = x2 \<or> y = y1 \<or> y = y2)"

section \<open>Drawing on a render target\<close>

text \<open>
  \<^verbatim>\<open>putPixel\<close> draws one vertex on an \<^verbatim>\<open>sf::RenderTarget\<close>. The target is modelled by
  the sequence of the pixels drawn on it so far, each with its colour: drawing appends.

  Positions are \<^verbatim>\<open>sf::Vector2f\<close>, pairs of \<^verbatim>\<open>float\<close>. The model computes with real
  numbers: it has no rounding error, no infinity and no NaN, and it assumes that every
  rounded coordinate fits \<^verbatim>\<open>int\<close>. \<open>std_round\<close> is \<^verbatim>\<open>std::round\<close>: to the nearest
  integer, halfway cases away from zero.
\<close>

type_synonym Vector2f = "real \<times> real"
type_synonym RenderTarget = "(int \<times> int \<times> Color) list"

definition std_round :: "real \<Rightarrow> int" where
  "std_round v = (if 0 \<le> v then \<lfloor>v + 1 / 2\<rfloor> else \<lceil>v - 1 / 2\<rceil>)"

definition putPixel :: "RenderTarget \<Rightarrow> int \<Rightarrow> int \<Rightarrow> Color \<Rightarrow> RenderTarget" where
  "putPixel target x y color = target @ [(x, y, color)]"

subsection \<open>The incremental line\<close>

text \<open>The \<^verbatim>\<open>for\<close> loop of \<^verbatim>\<open>drawLineIncremental\<close>, from \<open>x\<close> to \<open>xend\<close>.\<close>

function drawLineIncremental_loop ::
  "RenderTarget \<Rightarrow> Color \<Rightarrow> bool \<Rightarrow> real \<Rightarrow> int \<Rightarrow> int \<Rightarrow> real \<Rightarrow> RenderTarget" where
  "drawLineIncremental_loop target color steep m xend x y =
     (if x \<le> xend
      then (let px = (if steep then std_round y else x);
                py = (if steep then x else std_round y)
            in drawLineIncremental_loop (putPixel target px py color) color steep m xend
                 (x + 1) (y + m))
      else target)"
  by pat_completeness auto
termination
  by (relation "measure (\<lambda>(target, color, steep, m, xend, x, y). nat (xend + 1 - x))") auto

definition drawLineIncremental ::
  "RenderTarget \<Rightarrow> Vector2f \<Rightarrow> Vector2f \<Rightarrow> Color \<Rightarrow> RenderTarget" where
  "drawLineIncremental target a b color =
     (let x0 = fst a; y0 = snd a; x1 = fst b; y1 = snd b;
          dx = x1 - x0; dy = y1 - y0
      in if dx = 0 \<and> dy = 0
         then putPixel target (std_round x0) (std_round y0) color
         else (let steep = (\<bar>dy\<bar> > \<bar>dx\<bar>);
                   (x0, y0, x1, y1, dx, dy) =
                     (if steep then (y0, x0, y1, x1, dy, dx) else (x0, y0, x1, y1, dx, dy));
                   (x0, y0, x1, y1, dx, dy) =
                     (if x0 > x1 then (x1, y1, x0, y0, x0 - x1, y0 - y1)
                      else (x0, y0, x1, y1, dx, dy));
                   m = (if dx = 0 then 0 else dy / dx)
               in drawLineIncremental_loop target color steep m (std_round x1)
                    (std_round x0) y0))"

text \<open>The rectangle of the outermost pixels of an image.\<close>

definition border :: "Image \<Rightarrow> Rect" where
  "border img = (0, 0, int (fst (m_size img)) - 1, int (snd (m_size img)) - 1)"

text \<open>
  Example data: three colours, a 3 by 3 image with a black border and a white centre,
  and a 5 by 3 image with a black border whose inner row is white, green, white.
\<close>

definition white :: Color where "white = Color 255 255 255 255"
definition black :: Color where "black = Color 0 0 0 255"
definition green :: Color where "green = Color 200 255 200 255"

definition framed3 :: Image where
  "framed3 = \<lparr>m_size = (3, 3), m_pixels = (\<lambda>p. if p = (1, 1) then white else black)\<rparr>"

definition walled :: Image where
  "walled = \<lparr>m_size = (5, 3),
      m_pixels = (\<lambda>p. if p = (1, 1) \<or> p = (3, 1) then white else if p = (2, 1) then green else black)\<rparr>"

subsection \<open>Vocabulary for the statements on the line\<close>

text \<open>\<open>positions\<close> are the coordinates of the pixels drawn on a target, in the order of the drawing.\<close>

definition positions :: "RenderTarget \<Rightarrow> (int \<times> int) list" where
  "positions target = map (\<lambda>(x, y, c). (x, y)) target"

declare drawLineIncremental_loop.simps [simp del]

section \<open>Properties of the fills\<close>

subsection \<open>Regions and the measure of the loops\<close>

lemma region_E: "p \<in> region E Q \<Longrightarrow> E p"
  by (induction rule: region.induct) auto

lemma region_empty: "region E {} = {}"
proof -
  have "x \<in> region E {} \<Longrightarrow> False" for x
    by (induction rule: region.induct) auto
  then show ?thesis by auto
qed

lemma region_drop:
  assumes "\<not> E p"
  shows "region E (insert p Q) = region E Q"
proof (rule set_eqI, rule iffI)
  fix x assume "x \<in> region E (insert p Q)"
  then show "x \<in> region E Q"
    using assms by (induction rule: region.induct) (auto intro: region.intros)
next
  fix x assume "x \<in> region E Q"
  then show "x \<in> region E (insert p Q)"
    by (induction rule: region.induct) (auto intro: region.intros)
qed

lemma region_take:
  assumes Ep: "E p" and E': "\<And>x. E' x \<longleftrightarrow> E x \<and> x \<noteq> p"
  shows "region E (insert p Q) = insert p (region E' (Q \<union> set (neighbours p)))"
proof (rule set_eqI, rule iffI)
  fix x assume "x \<in> region E (insert p Q)"
  then show "x \<in> insert p (region E' (Q \<union> set (neighbours p)))"
  proof (induction rule: region.induct)
    case (start s)
    then show ?case using E' by (cases "s = p") (auto intro: region.start)
  next
    case (step x n)
    show ?case
    proof (cases "n = p")
      case True then show ?thesis by simp
    next
      case False
      with step E' have En: "E' n" by simp
      from step.IH show ?thesis
      proof
        assume "x = p"
        with step have "n \<in> Q \<union> set (neighbours p)" by simp
        with En show ?thesis by (auto intro: region.start)
      next
        assume "x \<in> region E' (Q \<union> set (neighbours p))"
        with step En show ?thesis by (auto intro: region.step)
      qed
    qed
  qed
next
  have p_in: "p \<in> region E (insert p Q)" using Ep by (auto intro: region.start)
  fix x assume "x \<in> insert p (region E' (Q \<union> set (neighbours p)))"
  then show "x \<in> region E (insert p Q)"
  proof
    assume "x = p" with p_in show ?thesis by simp
  next
    assume "x \<in> region E' (Q \<union> set (neighbours p))"
    then show ?thesis
    proof (induction rule: region.induct)
      case (start s)
      then show ?case using E' p_in by (auto intro: region.start region.step)
    next
      case (step x n)
      then show ?case using E' by (auto intro: region.step)
    qed
  qed
qed

lemma finite_grid: "finite {p::nat \<times> nat. fst p < a \<and> snd p < b \<and> P p}"
proof (rule finite_subset)
  show "{p. fst p < a \<and> snd p < b \<and> P p} \<subseteq> {..<a} \<times> {..<b}" by auto
qed simp

lemma todo_setPixel:
  assumes "x < fst (m_size img)" "y < snd (m_size img)" "\<not> skip (m_pixels img (x, y))" "skip c"
  shows "todo skip (img\<lparr>m_pixels := (m_pixels img)((x, y) := c)\<rparr>) < todo skip img"
proof -
  let ?A = "{p. fst p < fst (m_size img) \<and> snd p < snd (m_size img) \<and> \<not> skip (m_pixels img p)}"
  have mem: "(x, y) \<in> ?A" using assms by simp
  have fin: "finite ?A" by (rule finite_grid)
  have "card (?A - {(x, y)}) < card ?A" by (rule card_Diff1_less [OF fin mem])
  moreover have "todo skip (img\<lparr>m_pixels := (m_pixels img)((x, y) := c)\<rparr>) = card (?A - {(x, y)})"
    unfolding todo_def by (rule arg_cong [where f = card]) (use assms in auto)
  moreover have "todo skip img = card ?A" by (simp add: todo_def)
  ultimately show ?thesis by simp
qed

lemma eligible_setPixel:
  assumes p: "in_bounds (m_size img) p" and c: "skip c"
  shows "eligible skip (img\<lparr>m_pixels := (m_pixels img)((nat (fst p), nat (snd p)) := c)\<rparr>) x
           \<longleftrightarrow> eligible skip img x \<and> x \<noteq> p"
proof (cases "x = p")
  case True
  then show ?thesis using c by (simp add: eligible_def colorAt_def)
next
  case False
  show ?thesis
  proof (cases "in_bounds (m_size img) x")
    case True
    with p False have "nat (fst x) \<noteq> nat (fst p) \<or> nat (snd x) \<noteq> nat (snd p)"
      by (auto simp: in_bounds_def prod_eq_iff)
    with False show ?thesis by (auto simp: eligible_def colorAt_def)
  next
    case False
    then show ?thesis by (simp add: eligible_def)
  qed
qed

lemma recolor_setPixel:
  assumes p: "in_bounds (m_size img) p"
  shows "recolor (img\<lparr>m_pixels := (m_pixels img)((nat (fst p), nat (snd p)) := c)\<rparr>) S c
           = recolor img (insert p S) c"
proof -
  have "\<And>a b. (a, b) = (nat (fst p), nat (snd p)) \<longleftrightarrow> (int a, int b) = p"
    using p by (auto simp: in_bounds_def prod_eq_iff)
  then show ?thesis
    by (auto simp: recolor_def fun_eq_iff)
qed

lemma fill_loop_correct:
  fixes f :: "Image \<Rightarrow> Vector2i list \<Rightarrow> Image option"
  assumes unfold: "\<And>img q. f img q =
     (case q of
        [] \<Rightarrow> Some img
      | p # q' \<Rightarrow>
          if fst p < 0 \<or> snd p < 0 \<or> nat (fst p) \<ge> fst sz \<or> nat (snd p) \<ge> snd sz
          then f img q'
          else (case getPixel img (nat (fst p)) (nat (snd p)) of
                  None \<Rightarrow> None
                | Some c \<Rightarrow>
                    if skip c
                    then f img q'
                    else (case setPixel img (nat (fst p)) (nat (snd p)) fillColor of
                            None \<Rightarrow> None
                          | Some img' \<Rightarrow>
                              f img' (q' @ [(fst p + 1, snd p), (fst p - 1, snd p),
                                            (fst p, snd p + 1), (fst p, snd p - 1)]))))"
    and skip: "skip fillColor"
  shows "m_size img = sz \<Longrightarrow>
         f img q = Some (recolor img (region (eligible skip img) (set q)) fillColor)"
proof (induction "(img, q)" arbitrary: img q
         rule: measure_induct_rule [where f = "\<lambda>(img, q). 4 * todo skip img + length q"])
  case less
  note sz = \<open>m_size img = sz\<close>
  show ?case
  proof (cases q)
    case Nil
    have "region (eligible skip img) {} = {}"
      by (rule region_empty)
    then have "recolor img (region (eligible skip img) {}) fillColor = img"
      by (simp add: recolor_def)
    with Nil show ?thesis by (subst unfold) simp
  next
    case (Cons p q')
    show ?thesis
    proof (cases "eligible skip img p")
      case False
      have "f img q = f img q'"
        using False sz Cons
        by (subst unfold) (auto simp: eligible_def in_bounds_def colorAt_def getPixel_def)
      also have "\<dots> = Some (recolor img (region (eligible skip img) (set q')) fillColor)"
        using Cons sz by (intro less) auto
      finally show ?thesis using Cons region_drop [of "eligible skip img" p "set q'"] False by simp
    next
      case True
      let ?img' = "img\<lparr>m_pixels := (m_pixels img)((nat (fst p), nat (snd p)) := fillColor)\<rparr>"
      from True have inb: "in_bounds (m_size img) p" and ns: "\<not> skip (colorAt img p)"
        by (simp_all add: eligible_def)
      have lt: "todo skip ?img' < todo skip img"
        using inb ns skip by (intro todo_setPixel) (auto simp: in_bounds_def colorAt_def)
      have E': "eligible skip ?img' = (\<lambda>x. eligible skip img x \<and> x \<noteq> p)"
        using eligible_setPixel [where img = img and p = p and skip = skip and c = fillColor] inb skip
        by (intro ext) simp
      let ?R = "region (\<lambda>x. eligible skip img x \<and> x \<noteq> p) (set q' \<union> set (neighbours p))"
      have s1: "f img q = f ?img' (q' @ neighbours p)"
        using inb ns sz Cons
        by (subst unfold) (auto simp: in_bounds_def colorAt_def getPixel_def setPixel_def neighbours_def)
      have s2: "f ?img' (q' @ neighbours p) = Some (recolor ?img'
                    (region (eligible skip ?img') (set (q' @ neighbours p))) fillColor)"
        using Cons sz lt by (intro less) (auto simp: neighbours_def)
      have s3: "region (eligible skip ?img') (set (q' @ neighbours p)) = ?R"
        by (simp only: E' set_append)
      have s4: "recolor ?img' ?R fillColor = recolor img (insert p ?R) fillColor"
        by (rule recolor_setPixel [OF inb])
      have s5: "insert p ?R = region (eligible skip img) (set q)"
        using True region_take [of "eligible skip img" p "\<lambda>x. eligible skip img x \<and> x \<noteq> p" "set q'"]
        by (simp add: Cons)
      show ?thesis
        by (simp only: s1 s2 s3 s4 s5)
    qed
  qed
qed

lemma boundaryFill_loop_result:
  assumes "m_size img = sz"
  shows "boundaryFill_loop fc bc sz img q =
           Some (recolor img (region (eligible (\<lambda>c. c = bc \<or> c = fc) img) (set q)) fc)"
  using assms
  by (intro fill_loop_correct [where f = "boundaryFill_loop fc bc sz"
        and skip = "\<lambda>c. c = bc \<or> c = fc" and sz = sz])
     (rule boundaryFill_loop.simps, simp_all)

lemma floodFill_loop_result:
  assumes "m_size img = sz"
  shows "floodFill_loop fc bg sz img q =
           Some (recolor img (region (eligible (\<lambda>c. c \<noteq> bg \<or> c = fc) img) (set q)) fc)"
  using assms
  by (intro fill_loop_correct [where f = "floodFill_loop fc bg sz"
        and skip = "\<lambda>c. c \<noteq> bg \<or> c = fc" and sz = sz])
     (rule floodFill_loop.simps, simp_all)

lemma region_not_E: "\<not> E s \<Longrightarrow> region E {s} = {}"
  using region_drop [of E s "{}"] by (simp add: region_empty)

lemma recolor_empty: "recolor img {} c = img"
  by (simp add: recolor_def)

lemma boundaryFill_result:
  "boundaryFill img x y fc bc =
     Some (recolor img (region (eligible (\<lambda>c. c = bc \<or> c = fc) img) {(x, y)}) fc)"
proof (cases "eligible (\<lambda>c. c = bc \<or> c = fc) img (x, y)")
  case True
  then have "boundaryFill img x y fc bc = boundaryFill_loop fc bc (m_size img) img [(x, y)]"
    by (auto simp: boundaryFill_def eligible_def in_bounds_def colorAt_def getSize_def
        getPixel_def)
  then show ?thesis by (simp add: boundaryFill_loop_result)
next
  case False
  then have "boundaryFill img x y fc bc = Some img"
    by (auto simp: boundaryFill_def eligible_def in_bounds_def colorAt_def getSize_def
        getPixel_def Let_def)
  with False show ?thesis by (simp add: region_not_E recolor_empty)
qed

lemma floodFill_result:
  "floodFill img x y fc =
     Some (recolor img
       (region (eligible (\<lambda>c. c \<noteq> colorAt img (x, y) \<or> c = fc) img) {(x, y)}) fc)"
proof (cases "eligible (\<lambda>c. c \<noteq> colorAt img (x, y) \<or> c = fc) img (x, y)")
  case True
  then have "floodFill img x y fc =
      floodFill_loop fc (colorAt img (x, y)) (m_size img) img [(x, y)]"
    by (auto simp: floodFill_def eligible_def in_bounds_def colorAt_def getSize_def
        getPixel_def)
  then show ?thesis by (simp add: floodFill_loop_result)
next
  case False
  then have "floodFill img x y fc = Some img"
    by (auto simp: floodFill_def eligible_def in_bounds_def colorAt_def getSize_def
        getPixel_def Let_def)
  with False show ?thesis by (simp add: region_not_E recolor_empty)
qed

subsection \<open>Termination, seeds that change nothing, colours written, repetition\<close>

lemma getPixel_recolor:
  "getPixel (recolor img S c) a b =
     (if (int a, int b) \<in> S \<and> a < fst (m_size img) \<and> b < snd (m_size img) then Some c
      else getPixel img a b)"
  by (simp add: getPixel_def recolor_def)

lemma getSize_recolor: "getSize (recolor img S c) = getSize img"
  by (simp add: getSize_def recolor_def)

lemma colorAt_recolor:
  "in_bounds sz p \<Longrightarrow> colorAt (recolor img S c) p = (if p \<in> S then c else colorAt img p)"
  by (cases p) (simp add: colorAt_def recolor_def in_bounds_def)

lemma region_in_bounds: "p \<in> region (eligible skip img) Q \<Longrightarrow> in_bounds (m_size img) p"
  by (drule region_E) (simp add: eligible_def)

lemma refill_noop:
  assumes "skip' c"
  shows "region (eligible skip' (recolor img (region (eligible skip img) {s}) c)) {s} = {}
         \<or> recolor img (region (eligible skip img) {s}) c = img"
proof (cases "s \<in> region (eligible skip img) {s}")
  case True
  then have "in_bounds (m_size img) s" by (rule region_in_bounds)
  with True assms
  have "\<not> eligible skip' (recolor img (region (eligible skip img) {s}) c) s"
    by (simp add: eligible_def colorAt_recolor [where sz = "m_size img"])
  then show ?thesis by (simp add: region_not_E)
next
  case False
  then have "\<not> eligible skip img s" by (auto intro: region.start)
  then show ?thesis by (simp add: region_not_E recolor_empty)
qed

text \<open>
  Claim C4. For every image, every queue of coordinates, every seed and all colours, the
  loops of \<open>boundaryFill\<close> and \<open>floodFill\<close>, and the two functions themselves, return:
  the loop is a partial function whose value \<open>None\<close> stands for a run that never
  ends (or reads outside of the image), and the value is always \<open>Some\<close>. The proof is
  by induction on four times the number of pixels that can still be recoloured plus
  the length of the queue, which every iteration decreases.
\<close>

theorem fill_terminates:
  "(\<exists>r. boundaryFill_loop fillColor boundaryColor (getSize img) img q = Some r) \<and>
   (\<exists>r. floodFill_loop fillColor backgroundColor (getSize img) img q = Some r) \<and>
   (\<exists>r. boundaryFill img x y fillColor boundaryColor = Some r) \<and>
   (\<exists>r. floodFill img x y fillColor = Some r)"
  by (simp add: boundaryFill_loop_result floodFill_loop_result boundaryFill_result
      floodFill_result getSize_def)

theorem fill_terminates_witness:
  "(\<exists>r. boundaryFill_loop green black (getSize framed3) framed3 [(1, 1), (7, - 2)] = Some r) \<and>
   (\<exists>r. floodFill_loop green white (getSize framed3) framed3 [(1, 1), (7, - 2)] = Some r) \<and>
   (\<exists>r. boundaryFill framed3 1 1 green black = Some r) \<and>
   (\<exists>r. floodFill framed3 1 1 green = Some r)"
  by (rule fill_terminates)

text \<open>
  Claim C9. \<open>boundaryFill\<close> returns the image as it was when the seed is out of
  bounds or when the seed pixel has the boundary colour or the fill colour, and
  \<open>floodFill\<close> does when the seed is out of bounds or the seed pixel has the fill
  colour. The result is \<open>Some\<close>: no pixel outside of the image is read or written.
\<close>

theorem fill_seed_noop:
  "(\<not> in_bounds (getSize img) (x, y) \<or>
      getPixel img (nat x) (nat y) = Some boundaryColor \<or>
      getPixel img (nat x) (nat y) = Some fillColor
      \<longrightarrow> boundaryFill img x y fillColor boundaryColor = Some img) \<and>
   (\<not> in_bounds (getSize img) (x, y) \<or> getPixel img (nat x) (nat y) = Some fillColor
      \<longrightarrow> floodFill img x y fillColor = Some img)"
  by (auto simp: boundaryFill_def floodFill_def in_bounds_def Let_def)

theorem fill_seed_noop_witness:
  "boundaryFill framed3 3 1 green black = Some framed3 \<and>
   boundaryFill framed3 0 1 green black = Some framed3 \<and>
   boundaryFill framed3 1 1 white black = Some framed3 \<and>
   floodFill framed3 1 (- 1) green = Some framed3 \<and>
   floodFill framed3 1 1 white = Some framed3"
  using fill_seed_noop [of framed3 3 1 black green]
    fill_seed_noop [of framed3 0 1 black green]
    fill_seed_noop [of framed3 1 1 black white]
    fill_seed_noop [of framed3 1 "- 1" black green]
  by (simp add: framed3_def getSize_def getPixel_def in_bounds_def white_def black_def green_def)

text \<open>
  Claim C10. After \<open>boundaryFill\<close> or \<open>floodFill\<close> the image has its size, and every
  pixel either holds the colour it had or holds the fill colour.
\<close>

theorem fill_writes_fillColor_only:
  "(\<exists>r. boundaryFill img x y fillColor boundaryColor = Some r \<and> getSize r = getSize img \<and>
        (\<forall>a b. getPixel r a b = getPixel img a b \<or> getPixel r a b = Some fillColor)) \<and>
   (\<exists>r. floodFill img x y fillColor = Some r \<and> getSize r = getSize img \<and>
        (\<forall>a b. getPixel r a b = getPixel img a b \<or> getPixel r a b = Some fillColor))"
  by (simp add: boundaryFill_result floodFill_result getSize_recolor getPixel_recolor)

theorem fill_writes_fillColor_only_witness:
  "(\<exists>r. boundaryFill framed3 1 1 green black = Some r \<and> getSize r = getSize framed3 \<and>
        (\<forall>a b. getPixel r a b = getPixel framed3 a b \<or> getPixel r a b = Some green)) \<and>
   (\<exists>r. floodFill framed3 1 1 green = Some r \<and> getSize r = getSize framed3 \<and>
        (\<forall>a b. getPixel r a b = getPixel framed3 a b \<or> getPixel r a b = Some green))"
  by (rule fill_writes_fillColor_only)

text \<open>
  Claim C5. Running \<open>boundaryFill\<close> on its own result with the same arguments returns
  that result unchanged, and so does \<open>floodFill\<close>.
\<close>

theorem fill_idempotent:
  "(\<exists>r. boundaryFill img x y fillColor boundaryColor = Some r \<and>
        boundaryFill r x y fillColor boundaryColor = Some r) \<and>
   (\<exists>r. floodFill img x y fillColor = Some r \<and> floodFill r x y fillColor = Some r)"
proof (intro conjI)
  let ?skip = "\<lambda>c. c = boundaryColor \<or> c = fillColor"
  let ?r = "recolor img (region (eligible ?skip img) {(x, y)}) fillColor"
  have "boundaryFill ?r x y fillColor boundaryColor = Some ?r"
    using refill_noop [of ?skip fillColor img ?skip "(x, y)"]
    by (auto simp: boundaryFill_result recolor_empty)
  then show "\<exists>r. boundaryFill img x y fillColor boundaryColor = Some r \<and>
        boundaryFill r x y fillColor boundaryColor = Some r"
    by (simp add: boundaryFill_result)
next
  let ?skip = "\<lambda>c. c \<noteq> colorAt img (x, y) \<or> c = fillColor"
  let ?r = "recolor img (region (eligible ?skip img) {(x, y)}) fillColor"
  let ?skip' = "\<lambda>c. c \<noteq> colorAt ?r (x, y) \<or> c = fillColor"
  have "floodFill ?r x y fillColor = Some ?r"
    using refill_noop [of ?skip' fillColor img ?skip "(x, y)"]
    by (auto simp: floodFill_result recolor_empty)
  then show "\<exists>r. floodFill img x y fillColor = Some r \<and> floodFill r x y fillColor = Some r"
    by (simp add: floodFill_result)
qed

theorem fill_idempotent_witness:
  "(\<exists>r. boundaryFill framed3 1 1 green black = Some r \<and>
        boundaryFill r 1 1 green black = Some r) \<and>
   (\<exists>r. floodFill framed3 1 1 green = Some r \<and> floodFill r 1 1 green = Some r)"
  by (rule fill_idempotent)

subsection \<open>Rectangles\<close>

lemma region_line:
  assumes p: "p \<in> region E Q"
    and d: "d \<in> {(1, 0), (- 1, 0), (0, 1), (0, - 1)}"
    and E: "\<And>k. 1 \<le> k \<Longrightarrow> k \<le> n \<Longrightarrow> E (fst p + int k * fst d, snd p + int k * snd d)"
  shows "(fst p + int n * fst d, snd p + int n * snd d) \<in> region E Q"
  using E
proof (induction n)
  case 0
  with p show ?case by simp
next
  case (Suc n)
  let ?c = "(fst p + int n * fst d, snd p + int n * snd d)"
  let ?n = "(fst p + int (Suc n) * fst d, snd p + int (Suc n) * snd d)"
  have "?c \<in> region E Q" using Suc by simp
  moreover have "?n \<in> set (neighbours ?c)"
    using d by (auto simp: neighbours_def algebra_simps)
  moreover have "E ?n" using Suc.prems [of "Suc n"] by simp
  ultimately show ?case by (rule region.step)
qed

lemma rect_connected:
  assumes E: "\<And>p. strictly_inside fr p \<Longrightarrow> E p"
    and s: "strictly_inside fr s" and t: "strictly_inside fr t"
  shows "t \<in> region E {s}"
proof -
  obtain x1 y1 x2 y2 where fr: "fr = (x1, y1, x2, y2)" by (cases fr) auto
  obtain sx sy where s_eq: "s = (sx, sy)" by (cases s) auto
  obtain tx ty where t_eq: "t = (tx, ty)" by (cases t) auto
  have s_in: "s \<in> region E {s}" using E [OF s] by (auto intro: region.start)
  define d1 :: Vector2i where "d1 = (if sx \<le> tx then (1, 0) else (- 1, 0))"
  define n1 where "n1 = nat \<bar>tx - sx\<bar>"
  have "(fst s + int n1 * fst d1, snd s + int n1 * snd d1) \<in> region E {s}"
  proof (rule region_line [OF s_in])
    show "d1 \<in> {(1, 0), (- 1, 0), (0, 1), (0, - 1)}" by (simp add: d1_def)
  next
    fix k :: nat assume "1 \<le> k" "k \<le> n1"
    then have "strictly_inside fr (fst s + int k * fst d1, snd s + int k * snd d1)"
      using s t by (auto simp: fr s_eq t_eq d1_def n1_def)
    then show "E (fst s + int k * fst d1, snd s + int k * snd d1)" by (rule E)
  qed
  moreover have "(fst s + int n1 * fst d1, snd s + int n1 * snd d1) = (tx, sy)"
    by (auto simp: s_eq d1_def n1_def)
  ultimately have mid: "(tx, sy) \<in> region E {s}" by simp
  define d2 :: Vector2i where "d2 = (if sy \<le> ty then (0, 1) else (0, - 1))"
  define n2 where "n2 = nat \<bar>ty - sy\<bar>"
  have "(fst (tx, sy) + int n2 * fst d2, snd (tx, sy) + int n2 * snd d2) \<in> region E {s}"
  proof (rule region_line [OF mid])
    show "d2 \<in> {(1, 0), (- 1, 0), (0, 1), (0, - 1)}" by (simp add: d2_def)
  next
    fix k :: nat assume "1 \<le> k" "k \<le> n2"
    then have "strictly_inside fr (fst (tx, sy) + int k * fst d2, snd (tx, sy) + int k * snd d2)"
      using s t by (auto simp: fr s_eq t_eq d2_def n2_def)
    then show "E (fst (tx, sy) + int k * fst d2, snd (tx, sy) + int k * snd d2)" by (rule E)
  qed
  moreover have "(fst (tx, sy) + int n2 * fst d2, snd (tx, sy) + int n2 * snd d2) = t"
    by (auto simp: t_eq d2_def n2_def)
  ultimately show ?thesis by simp
qed

lemma region_inside_frame:
  assumes frame: "\<And>p. on_frame fr p \<Longrightarrow> \<not> E p"
    and s: "strictly_inside fr s"
  shows "p \<in> region E {s} \<Longrightarrow> strictly_inside fr p"
proof (induction rule: region.induct)
  case (start s')
  with s show ?case by simp
next
  case (step p n)
  obtain x1 y1 x2 y2 where fr: "fr = (x1, y1, x2, y2)" by (cases fr) auto
  obtain px py where p_eq: "p = (px, py)" by (cases p) auto
  have "strictly_inside fr n \<or> on_frame fr n"
    using step.IH step.hyps(2) by (auto simp: fr p_eq neighbours_def)
  with frame step.hyps(3) show ?case by blast
qed

lemma region_restrict:
  assumes S: "\<And>p. p \<in> region E Q \<Longrightarrow> S p"
    and E': "\<And>p. E' p \<longleftrightarrow> E p \<and> S p"
  shows "region E' Q = region E Q"
proof (rule set_eqI, rule iffI)
  fix x assume "x \<in> region E' Q"
  then show "x \<in> region E Q"
    by (induction rule: region.induct) (auto simp: E' intro: region.intros)
next
  fix x assume "x \<in> region E Q"
  then show "x \<in> region E' Q"
  proof (induction rule: region.induct)
    case (start s)
    then have "s \<in> region E Q" by (auto intro: region.start)
    then have "E' s" using start S E' by blast
    with start show ?case by (blast intro: region.start)
  next
    case (step p n)
    then have "n \<in> region E Q" by (blast intro: region.step)
    then have "E' n" using step S E' by blast
    with step show ?case by (blast intro: region.step)
  qed
qed

lemma region_all:
  assumes "\<And>p. E p \<Longrightarrow> strictly_inside fr p" "\<And>p. strictly_inside fr p \<Longrightarrow> E p"
    and "strictly_inside fr s"
  shows "region E {s} = {p. strictly_inside fr p}"
  using assms rect_connected [of fr E s] by (auto dest: region_E)

lemma inside_in_bounds:
  assumes frame: "\<And>p. on_frame fr p \<Longrightarrow> in_bounds sz p"
    and p: "strictly_inside fr p"
  shows "in_bounds sz p"
proof -
  obtain x1 y1 x2 y2 where fr: "fr = (x1, y1, x2, y2)" by (cases fr) auto
  obtain px py where p_eq: "p = (px, py)" by (cases p) auto
  have "in_bounds sz (x1, py)" "in_bounds sz (x2, py)" "in_bounds sz (px, y1)" "in_bounds sz (px, y2)"
    using p by (auto intro!: frame simp: fr p_eq)
  then show ?thesis using p by (auto simp: in_bounds_def fr p_eq)
qed

subsection \<open>Flood fill of a component, boundary fill of a frame\<close>

lemma boundaryFill_loop_Nil: "boundaryFill_loop fc bc sz img [] = Some img"
  by (subst boundaryFill_loop.simps) simp

lemma boundaryFill_loop_Cons:
  "boundaryFill_loop fc bc sz img (p # q') =
     (if fst p < 0 \<or> snd p < 0 \<or> nat (fst p) \<ge> fst sz \<or> nat (snd p) \<ge> snd sz
      then boundaryFill_loop fc bc sz img q'
      else (case getPixel img (nat (fst p)) (nat (snd p)) of
              None \<Rightarrow> None
            | Some c \<Rightarrow>
                if c = bc \<or> c = fc
                then boundaryFill_loop fc bc sz img q'
                else (case setPixel img (nat (fst p)) (nat (snd p)) fc of
                        None \<Rightarrow> None
                      | Some img' \<Rightarrow>
                          boundaryFill_loop fc bc sz img'
                            (q' @ [(fst p + 1, snd p), (fst p - 1, snd p),
                                   (fst p, snd p + 1), (fst p, snd p - 1)]))))"
  by (subst boundaryFill_loop.simps) simp

lemma eligible_flood:
  "bg \<noteq> fc \<Longrightarrow> eligible (\<lambda>c. c \<noteq> bg \<or> c = fc) img =
     (\<lambda>p. in_bounds (getSize img) p \<and> colorAt img p = bg)"
  by (auto simp: eligible_def getSize_def fun_eq_iff)

lemma inside_border_in_bounds:
  "strictly_inside (border img) p \<Longrightarrow> in_bounds (getSize img) p"
  by (cases p) (auto simp: border_def in_bounds_def getSize_def)

text \<open>
  Claim C3. For a seed inside the image whose colour differs from the fill colour,
  \<open>floodFill\<close> returns the image in which exactly the pixels 4-connected to the seed
  through pixels of the seed's colour are set to the fill colour, every other pixel
  unchanged. In particular, on an image whose outermost pixels have one colour and
  whose other pixels all have another one, a seed that is not on the border gives
  the image with exactly the pixels off the border recoloured.
\<close>

theorem floodFill_component:
  assumes "in_bounds (getSize img) (x, y)" and "colorAt img (x, y) \<noteq> fillColor"
  shows "floodFill img x y fillColor =
           Some (recolor img
             (region (\<lambda>p. in_bounds (getSize img) p \<and> colorAt img p = colorAt img (x, y))
                {(x, y)}) fillColor) \<and>
         ((\<forall>p. in_bounds (getSize img) p \<longrightarrow>
                colorAt img p =
                  (if strictly_inside (border img) p then backgroundColor else boundaryColor)) \<and>
          backgroundColor \<noteq> boundaryColor \<and> strictly_inside (border img) (x, y)
          \<longrightarrow> floodFill img x y fillColor =
                Some (recolor img {p. strictly_inside (border img) p} fillColor))"
proof (intro conjI impI)
  let ?E = "\<lambda>p. in_bounds (getSize img) p \<and> colorAt img p = colorAt img (x, y)"
  show general: "floodFill img x y fillColor = Some (recolor img (region ?E {(x, y)}) fillColor)"
    by (simp only: floodFill_result eligible_flood [OF assms(2)])
  assume H: "(\<forall>p. in_bounds (getSize img) p \<longrightarrow>
                colorAt img p =
                  (if strictly_inside (border img) p then backgroundColor else boundaryColor)) \<and>
          backgroundColor \<noteq> boundaryColor \<and> strictly_inside (border img) (x, y)"
  then have col: "colorAt img p =
      (if strictly_inside (border img) p then backgroundColor else boundaryColor)"
    if "in_bounds (getSize img) p" for p
    using that by blast
  have seed: "colorAt img (x, y) = backgroundColor"
    using H col [OF assms(1)] by simp
  have "region ?E {(x, y)} = {p. strictly_inside (border img) p}"
  proof (rule region_all)
    fix p assume "?E p"
    then have "in_bounds (getSize img) p" "colorAt img p = backgroundColor"
      using seed by simp_all
    with H col [of p] show "strictly_inside (border img) p" by (simp split: if_splits)
  next
    fix p assume "strictly_inside (border img) p"
    then have "in_bounds (getSize img) p" by (rule inside_border_in_bounds)
    with col [of p] seed \<open>strictly_inside (border img) p\<close> show "?E p" by simp
  next
    from H show "strictly_inside (border img) (x, y)" by simp
  qed
  with general show "floodFill img x y fillColor =
      Some (recolor img {p. strictly_inside (border img) p} fillColor)"
    by simp
qed

theorem floodFill_component_witness:
  "floodFill framed3 1 1 green = Some (recolor framed3 {p. strictly_inside (border framed3) p} green)
   \<and> getPixel (recolor framed3 {p. strictly_inside (border framed3) p} green) 1 1 = Some green
   \<and> getPixel (recolor framed3 {p. strictly_inside (border framed3) p} green) 2 1 = Some black"
proof -
  have 1: "in_bounds (getSize framed3) (1, 1)"
    by (simp add: in_bounds_def getSize_def framed3_def)
  have 2: "colorAt framed3 (1, 1) \<noteq> green"
    by (simp add: colorAt_def framed3_def white_def green_def)
  have 3: "\<forall>p. in_bounds (getSize framed3) p \<longrightarrow>
             colorAt framed3 p = (if strictly_inside (border framed3) p then white else black)"
    by (auto simp: in_bounds_def getSize_def framed3_def border_def colorAt_def)
  have 4: "white \<noteq> black" by (simp add: white_def black_def)
  have 5: "strictly_inside (border framed3) (1, 1)" by (simp add: border_def framed3_def)
  from floodFill_component [OF 1 2, of white black] 3 4 5
  have "floodFill framed3 1 1 green =
          Some (recolor framed3 {p. strictly_inside (border framed3) p} green)"
    by blast
  then show ?thesis
    by (simp add: recolor_def border_def framed3_def getPixel_def black_def green_def)
qed

text \<open>
  Claim C1, as amended. Let the image contain a rectangle frame, every pixel of which has
  the boundary colour, and let the seed lie strictly inside. Then \<open>boundaryFill\<close>
  returns the image in which exactly the pixels strictly inside the frame that a
  4-connected path of pixels strictly inside the frame, none of the boundary colour or
  the fill colour, links to the seed are set to the fill colour; every other pixel, so
  every pixel of the boundary colour and every pixel on or outside of the frame, is
  unchanged. If no pixel strictly inside the frame has the boundary colour or the fill
  colour, exactly the pixels strictly inside the frame are recoloured.
\<close>

theorem boundaryFill_frame:
  assumes frame: "\<forall>p. on_frame fr p \<longrightarrow>
                    in_bounds (getSize img) p \<and> colorAt img p = boundaryColor"
    and seed: "strictly_inside fr (x, y)"
  shows "boundaryFill img x y fillColor boundaryColor =
           Some (recolor img
             (region (\<lambda>p. strictly_inside fr p \<and> colorAt img p \<noteq> boundaryColor \<and>
                          colorAt img p \<noteq> fillColor) {(x, y)}) fillColor) \<and>
         ((\<forall>p. strictly_inside fr p \<longrightarrow>
                colorAt img p \<noteq> boundaryColor \<and> colorAt img p \<noteq> fillColor)
          \<longrightarrow> boundaryFill img x y fillColor boundaryColor =
                Some (recolor img {p. strictly_inside fr p} fillColor))"
proof (intro conjI impI)
  let ?E = "eligible (\<lambda>c. c = boundaryColor \<or> c = fillColor) img"
  let ?E' = "\<lambda>p. strictly_inside fr p \<and> colorAt img p \<noteq> boundaryColor \<and>
                  colorAt img p \<noteq> fillColor"
  have inb: "in_bounds (m_size img) p" if "strictly_inside fr p" for p
    using frame that by (auto intro: inside_in_bounds [of fr "m_size img" p] simp: getSize_def)
  have inside: "strictly_inside fr p" if "p \<in> region ?E {(x, y)}" for p
    using that
  proof (rule region_inside_frame [rotated 2])
    fix p assume "on_frame fr p"
    with frame have "colorAt img p = boundaryColor" by blast
    then show "\<not> ?E p" by (simp add: eligible_def)
  qed (rule seed)
  have "region ?E' {(x, y)} = region ?E {(x, y)}"
  proof (rule region_restrict [where S = "strictly_inside fr"])
    fix p assume "p \<in> region ?E {(x, y)}"
    then show "strictly_inside fr p" by (rule inside)
  next
    fix p show "?E' p \<longleftrightarrow> ?E p \<and> strictly_inside fr p"
      using inb [of p] by (auto simp: eligible_def)
  qed
  then show general: "boundaryFill img x y fillColor boundaryColor =
      Some (recolor img (region ?E' {(x, y)}) fillColor)"
    by (simp add: boundaryFill_result)
  assume "\<forall>p. strictly_inside fr p \<longrightarrow>
            colorAt img p \<noteq> boundaryColor \<and> colorAt img p \<noteq> fillColor"
  then have all: "?E' p" if "strictly_inside fr p" for p
    using that by blast
  have "region ?E' {(x, y)} = {p. strictly_inside fr p}"
  proof (rule region_all)
    fix p assume "?E' p" then show "strictly_inside fr p" by simp
  next
    fix p assume "strictly_inside fr p" then show "?E' p" by (rule all)
  qed (rule seed)
  with general show "boundaryFill img x y fillColor boundaryColor =
      Some (recolor img {p. strictly_inside fr p} fillColor)"
    by simp
qed

theorem boundaryFill_frame_witness:
  "boundaryFill framed3 1 1 green black =
     Some (recolor framed3 {p. strictly_inside (0, 0, 2, 2) p} green)
   \<and> getPixel (recolor framed3 {p. strictly_inside (0, 0, 2, 2) p} green) 1 1 = Some green
   \<and> getPixel (recolor framed3 {p. strictly_inside (0, 0, 2, 2) p} green) 1 2 = Some black"
proof -
  have 1: "\<forall>p. on_frame (0, 0, 2, 2) p \<longrightarrow>
             in_bounds (getSize framed3) p \<and> colorAt framed3 p = black"
    by (auto simp: in_bounds_def getSize_def framed3_def colorAt_def)
  have 2: "strictly_inside (0, 0, 2, 2) (1, 1)" by simp
  have 3: "\<forall>p. strictly_inside (0, 0, 2, 2) p \<longrightarrow>
             colorAt framed3 p \<noteq> black \<and> colorAt framed3 p \<noteq> green"
    by (auto simp: framed3_def colorAt_def white_def black_def green_def)
  from boundaryFill_frame [OF 1 2, of green] 3
  have "boundaryFill framed3 1 1 green black =
          Some (recolor framed3 {p. strictly_inside (0, 0, 2, 2) p} green)"
    by blast
  then show ?thesis
    by (simp add: recolor_def framed3_def getPixel_def black_def green_def)
qed

text \<open>
  Claim C1 as stated fails on the image \<open>walled\<close>: its border is a closed frame of
  black, the seed \<open>(1, 1)\<close> is white, and the pixel \<open>(2, 1)\<close> already has the fill
  colour. The fill recolours the seed only, and the pixel \<open>(3, 1)\<close>, strictly inside
  the frame, stays white.
\<close>

theorem boundaryFill_frame_counterexample:
  "\<not> (\<exists>p. on_frame (0, 0, 4, 2) p \<and>
          \<not> (in_bounds (getSize walled) p \<and> colorAt walled p = black)) \<and>
   strictly_inside (0, 0, 4, 2) (1, 1) \<and> colorAt walled (1, 1) = white \<and>
   white \<noteq> black \<and> white \<noteq> green \<and>
   boundaryFill walled 1 1 green black =
     Some (walled\<lparr>m_pixels := (m_pixels walled)((1, 1) := green)\<rparr>) \<and>
   strictly_inside (0, 0, 4, 2) (3, 1) \<and>
   getPixel (walled\<lparr>m_pixels := (m_pixels walled)((1, 1) := green)\<rparr>) 3 1 = Some white"
proof (intro conjI)
  show "\<not> (\<exists>p. on_frame (0, 0, 4, 2) p \<and>
          \<not> (in_bounds (getSize walled) p \<and> colorAt walled p = black))"
    by (auto simp: in_bounds_def getSize_def walled_def colorAt_def)
  show "boundaryFill walled 1 1 green black =
     Some (walled\<lparr>m_pixels := (m_pixels walled)((1, 1) := green)\<rparr>)"
    by (simp add: boundaryFill_def walled_def getSize_def getPixel_def setPixel_def
        boundaryFill_loop_Nil boundaryFill_loop_Cons white_def black_def green_def)
qed (simp_all add: walled_def colorAt_def getPixel_def white_def black_def green_def)

section \<open>Properties of the line\<close>

lemma line_normal_form:
  assumes "a \<noteq> b"
  shows "drawLineIncremental target a b color =
     (let steep = (\<bar>snd b - snd a\<bar> > \<bar>fst b - fst a\<bar>);
          w = (if steep then snd else fst); v = (if steep then fst else snd);
          s = (if w a \<le> w b then a else b); e = (if w a \<le> w b then b else a)
      in drawLineIncremental_loop target color steep ((v e - v s) / (w e - w s))
           (std_round (w e)) (std_round (w s)) (v s))"
proof -
  obtain ax ay where a: "a = (ax, ay)" by (cases a) auto
  obtain bx "by" where b: "b = (bx, by)" by (cases b) auto
  show ?thesis
    using assms unfolding a b drawLineIncremental_def Let_def
    by (auto simp: abs_if split: if_splits)
qed

text \<open>
  Claim C7. For every two positions \<open>a\<close> and \<open>b\<close>, drawing the line from \<open>a\<close> to \<open>b\<close>
  and drawing it from \<open>b\<close> to \<open>a\<close> draw the same pixels, here even in the same order:
  after the swap that makes the walk run upwards both calls run the same loop.
\<close>

theorem drawLineIncremental_reverse:
  "drawLineIncremental target a b color = drawLineIncremental target b a color \<and>
   set (positions (drawLineIncremental [] a b color)) =
     set (positions (drawLineIncremental [] b a color))"
proof -
  have "drawLineIncremental target a b color = drawLineIncremental target b a color" for target
  proof (cases "a = b")
    case True
    then show ?thesis by simp
  next
    case False
    then have "b \<noteq> a" by simp
    have "fst a \<noteq> fst b \<or> snd a \<noteq> snd b" using False by (auto simp: prod_eq_iff)
    then show ?thesis
      unfolding line_normal_form [OF False] line_normal_form [OF \<open>b \<noteq> a\<close>] Let_def
      by (auto simp: abs_if split: if_splits)
  qed
  then show ?thesis by simp
qed

theorem drawLineIncremental_reverse_witness:
  "drawLineIncremental [] (1 / 4, 3 / 4) (7 / 4, 9 / 4) white =
     drawLineIncremental [] (7 / 4, 9 / 4) (1 / 4, 3 / 4) white \<and>
   set (positions (drawLineIncremental [] (1 / 4, 3 / 4) (7 / 4, 9 / 4) white)) =
     set (positions (drawLineIncremental [] (7 / 4, 9 / 4) (1 / 4, 3 / 4) white))"
  by (rule drawLineIncremental_reverse)

end
